theory Spec2Isabelle
  imports Main "HOL-Library.AList"
begin

section \<open>The ambient state\<close>

text \<open>
  \<^verbatim>\<open>reframe/core/environments.py\<close> works on two process-wide resources: the variable
  mapping \<^verbatim>\<open>os.environ\<close> and the module system reached through
  \<^verbatim>\<open>runtime().modules_system\<close>. The module system is not part of the file; it is a
  parameter here, a record of its six operations over a state type \<open>'ms\<close> of its own.
  Queries read the state, \<^verbatim>\<open>load_module\<close> returns the list of modules it had to
  unload together with the new state, \<^verbatim>\<open>unload_module\<close> returns the new state.
  The state of the module system is kept apart from the variable mapping. A call of the
  module system that raises ends the calling method with that exception; the functions
  below describe the runs in which every such call returns.
\<close>

type_synonym environ = "string \<rightharpoonup> string"

record 'ms modules_system =
  is_module_loaded :: "'ms \<Rightarrow> string \<Rightarrow> bool"
  load_module :: "'ms \<Rightarrow> string \<Rightarrow> bool \<Rightarrow> string list \<times> 'ms"
  unload_module :: "'ms \<Rightarrow> string \<Rightarrow> 'ms"
  loaded_modules :: "'ms \<Rightarrow> string list"
  ms_emit_load_commands :: "'ms \<Rightarrow> string \<Rightarrow> string list"
  ms_emit_unload_commands :: "'ms \<Rightarrow> string \<Rightarrow> string list"

record 'ms ambient =
  os_environ :: environ
  modsys :: 'ms

section \<open>Environment\<close>

text \<open>
  The attributes set by \<^verbatim>\<open>Environment.__init__\<close>. \<^verbatim>\<open>_variables\<close> is an
  \<^verbatim>\<open>OrderedDict\<close>: a list of items in insertion order, with one item per key.
  \<^verbatim>\<open>_saved_variables\<close> is a plain dict, \<^verbatim>\<open>_preloaded\<close> a set, and
  \<^verbatim>\<open>_module_ops\<close> a list of pairs whose first component is \<^verbatim>\<open>'l'\<close> or
  \<^verbatim>\<open>'u'\<close>.
\<close>

datatype module_op = Op_l | Op_u

record environment =
  name :: string
  modules :: "string list"
  variables :: "(string \<times> string) list"
  loaded :: bool
  saved_variables :: "string \<rightharpoonup> string"
  conflicted :: "string list"
  preloaded :: "string set"
  module_ops :: "(module_op \<times> string) list"

text \<open>
  \<^verbatim>\<open>collections.OrderedDict(variables)\<close> inserts the given items one after the other:
  a key seen before keeps its position and takes the new value.
\<close>

definition OrderedDict :: "(string \<times> string) list \<Rightarrow> (string \<times> string) list" where
  "OrderedDict items = foldl (\<lambda>od (k, v). AList.update k v od) [] items"

definition Environment_init ::
  "string \<Rightarrow> string list \<Rightarrow> (string \<times> string) list \<Rightarrow> environment" where
  "Environment_init nm mods vars =
     \<lparr>name = nm, modules = mods, variables = OrderedDict vars, loaded = False,
      saved_variables = Map.empty, conflicted = [], preloaded = {}, module_ops = []\<rparr>"

text \<open>
  The class body first binds \<^verbatim>\<open>name\<close> to
  \<^verbatim>\<open>fields.TypedField('name', typ.Str[r'(\w|-)+'])\<close> and later rebinds it to the
  read-only property, so the typed field is gone when the class is created, and
  \<^verbatim>\<open>__init__\<close> assigns the plain attribute \<^verbatim>\<open>_name\<close>. The grammar the
  typed field names is a full match of \<^verbatim>\<open>(\w|-)+\<close>. An ASCII character is a
  word character when it is a letter, a digit or the underscore. Python's \<^verbatim>\<open>\w\<close>
  also accepts the characters beyond ASCII that Unicode classes as alphanumeric; which
  of them it accepts is the parameter \<open>uw\<close> of \<open>name_grammar\<close>.
\<close>

definition is_word_char :: "char \<Rightarrow> bool" where
  "is_word_char c \<longleftrightarrow>
     (let n = (of_char c :: nat)
      in (48 \<le> n \<and> n \<le> 57) \<or> (65 \<le> n \<and> n \<le> 90) \<or> (97 \<le> n \<and> n \<le> 122) \<or> n = 95)"

definition name_grammar :: "(char \<Rightarrow> bool) \<Rightarrow> string \<Rightarrow> bool" where
  "name_grammar uw s \<longleftrightarrow>
     s \<noteq> [] \<and>
     list_all (\<lambda>c. is_word_char c \<or> (127 < (of_char c :: nat) \<and> uw c) \<or> c = CHR ''-'') s"

subsection \<open>is_loaded\<close>

text \<open>
  \<^verbatim>\<open>os.path.expandvars\<close> reads \<^verbatim>\<open>os.environ\<close>; it is the parameter \<open>ev\<close>,
  given the variable mapping explicitly. \<^verbatim>\<open>os.environ.get(k, None)\<close> is the lookup
  in the map, and \<^verbatim>\<open>None\<close> differs from every string.
\<close>

definition Environment_is_loaded ::
  "'ms modules_system \<Rightarrow> (environ \<Rightarrow> string \<Rightarrow> string) \<Rightarrow> environment \<Rightarrow> 'ms ambient \<Rightarrow> bool" where
  "Environment_is_loaded B ev E amb \<longleftrightarrow>
     list_all (is_module_loaded B (modsys amb)) (modules E) \<and>
     list_all (\<lambda>(k, v). os_environ amb k = Some (ev (os_environ amb) v)) (variables E)"

subsection \<open>load\<close>

text \<open>One round of the loop over \<^verbatim>\<open>self._modules\<close> in \<^verbatim>\<open>load\<close>.\<close>

definition load_step ::
  "'ms modules_system \<Rightarrow> string \<Rightarrow> environment \<times> 'ms \<Rightarrow> environment \<times> 'ms" where
  "load_step B m = (\<lambda>(E, ms).
     let E1 = (if is_module_loaded B ms m
               then E\<lparr>preloaded := insert m (preloaded E)\<rparr> else E);
         (cs, ms') = load_module B ms m True;
         E2 = foldl (\<lambda>E' c. E'\<lparr>module_ops := module_ops E' @ [(Op_u, c)]\<rparr>) E1 cs;
         E3 = E2\<lparr>module_ops := module_ops E2 @ [(Op_l, m)]\<rparr>;
         E4 = E3\<lparr>conflicted := conflicted E3 @ cs\<rparr>
     in (E4, ms'))"

fun load_modules ::
  "'ms modules_system \<Rightarrow> string list \<Rightarrow> environment \<times> 'ms \<Rightarrow> environment \<times> 'ms" where
  "load_modules B [] s = s"
| "load_modules B (m # rest) s = load_modules B rest (load_step B m s)"

text \<open>
  The loop over \<^verbatim>\<open>self._variables.items()\<close> in \<^verbatim>\<open>load\<close>, on the pair of
  \<^verbatim>\<open>_saved_variables\<close> and \<^verbatim>\<open>os.environ\<close>.
\<close>

fun set_variables ::
  "(environ \<Rightarrow> string \<Rightarrow> string) \<Rightarrow> (string \<times> string) list \<Rightarrow>
   (string \<rightharpoonup> string) \<times> environ \<Rightarrow> (string \<rightharpoonup> string) \<times> environ" where
  "set_variables ev [] s = s"
| "set_variables ev ((k, v) # rest) (saved, en) =
     (let saved' = (case en k of Some old \<Rightarrow> saved(k \<mapsto> old) | None \<Rightarrow> saved);
          en' = en(k \<mapsto> ev en v)
      in set_variables ev rest (saved', en'))"

definition Environment_load ::
  "'ms modules_system \<Rightarrow> (environ \<Rightarrow> string \<Rightarrow> string) \<Rightarrow>
   environment \<times> 'ms ambient \<Rightarrow> environment \<times> 'ms ambient" where
  "Environment_load B ev = (\<lambda>(E, amb).
     let (E1, ms1) = load_modules B (modules E) (E, modsys amb);
         (saved1, en1) = set_variables ev (variables E1) (saved_variables E1, os_environ amb)
     in (E1\<lparr>saved_variables := saved1, loaded := True\<rparr>,
         \<lparr>os_environ = en1, modsys = ms1\<rparr>))"

subsection \<open>unload\<close>

fun restore_variables ::
  "(string \<times> string) list \<Rightarrow> (string \<rightharpoonup> string) \<Rightarrow> environ \<Rightarrow> environ" where
  "restore_variables [] saved en = en"
| "restore_variables ((k, v) # rest) saved en =
     restore_variables rest saved
       (case saved k of
          Some old \<Rightarrow> en(k \<mapsto> old)
        | None \<Rightarrow> (case en k of Some cur \<Rightarrow> en(k := None) | None \<Rightarrow> en))"

fun unload_modules ::
  "'ms modules_system \<Rightarrow> string list \<Rightarrow> string set \<Rightarrow> 'ms \<Rightarrow> 'ms" where
  "unload_modules B [] pre ms = ms"
| "unload_modules B (m # rest) pre ms =
     unload_modules B rest pre (if m \<notin> pre then unload_module B ms m else ms)"

text \<open>
  \<^verbatim>\<open>load_module(m)\<close> without the keyword: \<^verbatim>\<open>force\<close> takes its default, false,
  and the returned list is dropped.
\<close>

fun reload_conflicted :: "'ms modules_system \<Rightarrow> string list \<Rightarrow> 'ms \<Rightarrow> 'ms" where
  "reload_conflicted B [] ms = ms"
| "reload_conflicted B (m # rest) ms = reload_conflicted B rest (snd (load_module B ms m False))"

definition Environment_unload ::
  "'ms modules_system \<Rightarrow> environment \<times> 'ms ambient \<Rightarrow> environment \<times> 'ms ambient" where
  "Environment_unload B = (\<lambda>(E, amb).
     if \<not> loaded E then (E, amb)
     else
       let en1 = restore_variables (variables E) (saved_variables E) (os_environ amb);
           ms1 = unload_modules B (rev (modules E)) (preloaded E) (modsys amb);
           ms2 = reload_conflicted B (conflicted E) ms1
       in (E\<lparr>loaded := False\<rparr>, \<lparr>os_environ = en1, modsys = ms2\<rparr>))"

subsection \<open>emit_unload_commands\<close>

text \<open>
  The dictionary \<^verbatim>\<open>emit_fn\<close> of \<^verbatim>\<open>emit_unload_commands\<close>, with the roles
  inverted as in the source: \<^verbatim>\<open>'l'\<close> maps to the backend's unload commands.
\<close>

definition emit_fn_inverted ::
  "'ms modules_system \<Rightarrow> 'ms \<Rightarrow> module_op \<Rightarrow> string \<Rightarrow> string list" where
  "emit_fn_inverted B ms op =
     (case op of Op_l \<Rightarrow> ms_emit_unload_commands B ms | Op_u \<Rightarrow> ms_emit_load_commands B ms)"

definition Environment_emit_unload_commands ::
  "'ms modules_system \<Rightarrow> 'ms \<Rightarrow> environment \<Rightarrow> string list" where
  "Environment_emit_unload_commands B ms E =
     (let ret0 = foldl (\<lambda>ret var. ret @ [''unset '' @ var]) [] (map fst (variables E));
          ops = (if module_ops E \<noteq> [] then rev (module_ops E)
                 else map (\<lambda>m. (Op_l, m)) (rev (modules E)))
      in foldl (\<lambda>ret (op, m). ret @ emit_fn_inverted B ms op m) ret0 ops)"

subsection \<open>Equality\<close>

text \<open>
  \<^verbatim>\<open>__eq__\<close> on two objects built by \<^verbatim>\<open>Environment.__init__\<close>: the
  \<^verbatim>\<open>isinstance\<close> guard passes, the names are compared as strings, the modules as
  sets, and the two \<^verbatim>\<open>OrderedDict\<close>s by \<^verbatim>\<open>==\<close>, which for two ordered
  dictionaries compares the item lists.
\<close>

definition Environment_eq :: "environment \<Rightarrow> environment \<Rightarrow> bool" where
  "Environment_eq self other \<longleftrightarrow>
     name self = name other \<and>
     set (modules self) = set (modules other) \<and>
     variables self = variables other"

section \<open>EnvironmentSnapshot and save_environment\<close>

text \<open>
  \<^verbatim>\<open>EnvironmentSnapshot.__init__\<close> does not call the base constructor: it sets four
  attributes only, and \<^verbatim>\<open>_loaded\<close> exists only once \<^verbatim>\<open>load\<close> has run.
  \<^verbatim>\<open>_variables\<close> is a plain dict copied from \<^verbatim>\<open>os.environ\<close>.
\<close>

record environment_snapshot =
  snap_name :: string
  snap_modules :: "string list"
  snap_variables :: environ
  snap_conflicted :: "string list"
  snap_loaded :: "bool option"

datatype error = NotImplementedError string

definition EnvironmentSnapshot_init ::
  "'ms modules_system \<Rightarrow> string \<Rightarrow> 'ms ambient \<Rightarrow> environment_snapshot" where
  "EnvironmentSnapshot_init B nm amb =
     \<lparr>snap_name = nm, snap_modules = loaded_modules B (modsys amb),
      snap_variables = os_environ amb, snap_conflicted = [], snap_loaded = None\<rparr>"

text \<open>\<^verbatim>\<open>os.environ.clear()\<close>, then \<^verbatim>\<open>os.environ.update(self._variables)\<close>.\<close>

definition EnvironmentSnapshot_load ::
  "environment_snapshot \<times> 'ms ambient \<Rightarrow> environment_snapshot \<times> 'ms ambient" where
  "EnvironmentSnapshot_load = (\<lambda>(snap, amb).
     let amb1 = amb\<lparr>os_environ := Map.empty\<rparr>;
         amb2 = amb1\<lparr>os_environ := os_environ amb1 ++ snap_variables snap\<rparr>
     in (snap\<lparr>snap_loaded := Some True\<rparr>, amb2))"

text \<open>
  The two unsupported operations raise before doing anything else; the result carries
  the error together with the object and the ambient state as they are at the raise.
\<close>

definition EnvironmentSnapshot_is_loaded ::
  "environment_snapshot \<times> 'ms ambient \<Rightarrow> (error + bool) \<times> environment_snapshot \<times> 'ms ambient" where
  "EnvironmentSnapshot_is_loaded = (\<lambda>(snap, amb).
     (Inl (NotImplementedError ''is_loaded is not a valid property of an environment snapshot''),
      snap, amb))"

definition EnvironmentSnapshot_unload ::
  "environment_snapshot \<times> 'ms ambient \<Rightarrow> (error + unit) \<times> environment_snapshot \<times> 'ms ambient" where
  "EnvironmentSnapshot_unload = (\<lambda>(snap, amb).
     (Inl (NotImplementedError ''cannot unload an environment snapshot''), snap, amb))"

text \<open>
  \<^verbatim>\<open>save_environment\<close>: the constructor takes the snapshot, \<^verbatim>\<open>__enter__\<close>
  returns it, \<^verbatim>\<open>__exit__\<close> loads it.
\<close>

definition save_environment_init ::
  "'ms modules_system \<Rightarrow> 'ms ambient \<Rightarrow> environment_snapshot" where
  "save_environment_init B amb = EnvironmentSnapshot_init B ''env_snapshot'' amb"

definition save_environment_exit ::
  "environment_snapshot \<times> 'ms ambient \<Rightarrow> environment_snapshot \<times> 'ms ambient" where
  "save_environment_exit = EnvironmentSnapshot_load"

section \<open>The module system\<close>

text \<open>
  Modelled from the spec: the ModuleBackend capability contract (the concrete module
  systems behind \<^verbatim>\<open>runtime().modules_system\<close> live outside
  \<^verbatim>\<open>reframe/core/environments.py\<close>). A backend honours the contract when
  \<^item> \<^verbatim>\<open>isLoaded\<close> agrees with \<^verbatim>\<open>loadedModules\<close>;
  \<^item> loading a module that is loaded changes nothing and reports no conflict;
  \<^item> loading a module that is not loaded reports modules that were loaded, removes
    exactly those and adds the module; without \<^verbatim>\<open>force\<close> it reports none;
  \<^item> unloading removes the module and nothing else.
\<close>

definition backend_contract :: "'ms modules_system \<Rightarrow> bool" where
  "backend_contract B \<longleftrightarrow>
     (\<forall>ms m. is_module_loaded B ms m = (m \<in> set (loaded_modules B ms))) \<and>
     (\<forall>ms m f. is_module_loaded B ms m \<longrightarrow>
        fst (load_module B ms m f) = [] \<and>
        set (loaded_modules B (snd (load_module B ms m f))) = set (loaded_modules B ms)) \<and>
     (\<forall>ms m f. \<not> is_module_loaded B ms m \<longrightarrow>
        set (fst (load_module B ms m f)) \<subseteq> set (loaded_modules B ms) \<and>
        (\<not> f \<longrightarrow> fst (load_module B ms m f) = []) \<and>
        set (loaded_modules B (snd (load_module B ms m f))) =
          (set (loaded_modules B ms) - set (fst (load_module B ms m f))) \<union> {m}) \<and>
     (\<forall>ms m. set (loaded_modules B (unload_module B ms m)) = set (loaded_modules B ms) - {m})"

text \<open>
  Modelled from the spec: a ModuleBackend whose state is the ordered list of loaded
  modules. \<open>conflicts m\<close> lists the modules that cannot stay loaded with \<open>m\<close>; a forced
  load unloads those of them that are loaded and reports them.
\<close>

definition simple_backend :: "(string \<Rightarrow> string list) \<Rightarrow> string list modules_system" where
  "simple_backend conflicts =
     \<lparr>is_module_loaded = (\<lambda>ms m. m \<in> set ms),
      load_module = (\<lambda>ms m force.
        if m \<in> set ms then ([], ms)
        else
          let cs = (if force then filter (\<lambda>x. x \<in> set (conflicts m)) ms else [])
          in (cs, filter (\<lambda>x. x \<notin> set cs) ms @ [m])),
      unload_module = (\<lambda>ms m. removeAll m ms),
      loaded_modules = (\<lambda>ms. ms),
      ms_emit_load_commands = (\<lambda>ms m. [''module load '' @ m]),
      ms_emit_unload_commands = (\<lambda>ms m. [''module unload '' @ m])\<rparr>"

text \<open>
  The requests an Environment issues are observed by wrapping a backend: the wrapper
  behaves as the backend does and appends every load and unload request to a log kept
  beside the backend's state.
\<close>

datatype request = Req_load string bool | Req_unload string

definition traced :: "'ms modules_system \<Rightarrow> ('ms \<times> request list) modules_system" where
  "traced B =
     \<lparr>is_module_loaded = (\<lambda>(ms, log) m. is_module_loaded B ms m),
      load_module = (\<lambda>(ms, log) m force.
        (fst (load_module B ms m force),
         (snd (load_module B ms m force), log @ [Req_load m force]))),
      unload_module = (\<lambda>(ms, log) m. (unload_module B ms m, log @ [Req_unload m])),
      loaded_modules = (\<lambda>(ms, log). loaded_modules B ms),
      ms_emit_load_commands = (\<lambda>(ms, log). ms_emit_load_commands B ms),
      ms_emit_unload_commands = (\<lambda>(ms, log). ms_emit_unload_commands B ms)\<rparr>"

section \<open>Variable expansion\<close>

text \<open>
  \<^verbatim>\<open>os.path.expandvars\<close> of the Python library, on ASCII text, for the concrete runs
  below: it scans for \<^verbatim>\<open>$name\<close> and \<^verbatim>\<open>${name}\<close>, replaces a reference whose
  name is set by the value, leaves every other reference as it is, and goes on behind
  the replacement. \<open>var_ref\<close> matches the text after a \<^verbatim>\<open>$\<close> and returns the
  matched text, the name and the rest.
\<close>

definition var_ref :: "string \<Rightarrow> (string \<times> string \<times> string) option" where
  "var_ref cs =
     (let w = takeWhile is_word_char cs
      in if w \<noteq> [] then Some (w, w, dropWhile is_word_char cs)
         else (case cs of
                 [] \<Rightarrow> None
               | c # cs' \<Rightarrow>
                   if c = CHR ''{'' \<and> CHR ''}'' \<in> set cs'
                   then let n = takeWhile (\<lambda>x. x \<noteq> CHR ''}'') cs'
                        in Some (''{'' @ n @ ''}'', n, tl (dropWhile (\<lambda>x. x \<noteq> CHR ''}'') cs'))
                   else None))"

fun expand_fuel :: "nat \<Rightarrow> environ \<Rightarrow> string \<Rightarrow> string" where
  "expand_fuel 0 en cs = cs"
| "expand_fuel (Suc n) en [] = []"
| "expand_fuel (Suc n) en (c # cs) =
     (if c = CHR ''$'' then
        (case var_ref cs of
           None \<Rightarrow> c # expand_fuel n en cs
         | Some (txt, nm, rest) \<Rightarrow>
             (case en nm of
                Some v \<Rightarrow> v @ expand_fuel n en rest
              | None \<Rightarrow> c # txt @ expand_fuel n en rest))
      else c # expand_fuel n en cs)"

definition expandvars :: "environ \<Rightarrow> string \<Rightarrow> string" where
  "expandvars en path = expand_fuel (length path) en path"

section \<open>The specification's wording\<close>

text \<open>
  The specification's description of \<^verbatim>\<open>emit_unload_commands\<close>: one
  \<^verbatim>\<open>unset NAME\<close> per declared variable in declared order, then the module
  operation log replayed backwards with the command roles swapped, or, when there is no
  log, unload commands for the declared modules in reverse declared order.
\<close>

definition spec_emit_unload_commands ::
  "'ms modules_system \<Rightarrow> 'ms \<Rightarrow> environment \<Rightarrow> string list" where
  "spec_emit_unload_commands B ms E =
     map (\<lambda>(k, v). ''unset '' @ k) (variables E) @
     (if module_ops E = []
      then concat (map (ms_emit_unload_commands B ms) (rev (modules E)))
      else concat (map (\<lambda>(op, m). case op of
                                     Op_l \<Rightarrow> ms_emit_unload_commands B ms m
                                   | Op_u \<Rightarrow> ms_emit_load_commands B ms m)
                       (rev (module_ops E))))"

text \<open>
  The specification's equality of two Environments: the same name, the same set of
  modules, and the same variable mapping, whatever the insertion order.
\<close>

definition spec_equal :: "environment \<Rightarrow> environment \<Rightarrow> bool" where
  "spec_equal A B \<longleftrightarrow>
     name A = name B \<and> set (modules A) = set (modules B) \<and>
     map_of (variables A) = map_of (variables B)"

section \<open>Properties\<close>

subsection \<open>Variable expansion\<close>

text \<open>
  Every round of \<open>expand_fuel\<close> consumes at least one character, so the length of the
  text is fuel enough: more fuel gives the same result.
\<close>

lemma var_ref_shorter:
  assumes "var_ref cs = Some (txt, nm, rest)"
  shows "length rest < length cs"
proof (cases "takeWhile is_word_char cs = []")
  case False
  with assms have rest: "rest = dropWhile is_word_char cs"
    by (simp add: var_ref_def Let_def)
  have "length (takeWhile is_word_char cs) + length (dropWhile is_word_char cs) = length cs"
    by (metis length_append takeWhile_dropWhile_id)
  with False rest show ?thesis
    by (cases "takeWhile is_word_char cs") simp_all
next
  case True
  with assms obtain c cs' where cs: "cs = c # cs'"
    and rest: "rest = tl (dropWhile (\<lambda>x. x \<noteq> CHR ''}'') cs')"
    by (cases cs) (auto simp: var_ref_def Let_def split: if_splits)
  have "length (dropWhile (\<lambda>x. x \<noteq> CHR ''}'') cs') \<le> length cs'"
    by (rule length_dropWhile_le)
  with cs rest show ?thesis by simp
qed

lemma expand_fuel_enough:
  "length cs \<le> n \<Longrightarrow> length cs \<le> k \<Longrightarrow> expand_fuel n en cs = expand_fuel k en cs"
proof (induction n arbitrary: cs k)
  case 0
  then show ?case by (cases k) simp_all
next
  case (Suc n)
  show ?case
  proof (cases cs)
    case Nil
    then show ?thesis by (cases k) simp_all
  next
    case (Cons c cs')
    with Suc.prems obtain k' where k: "k = Suc k'" and k': "length cs' \<le> k'"
      by (cases k) simp_all
    from Suc.prems Cons have n: "length cs' \<le> n" by simp
    have tail: "expand_fuel n en cs' = expand_fuel k' en cs'"
      using n k' by (rule Suc.IH)
    have rest: "\<And>tx nm r. var_ref cs' = Some (tx, nm, r) \<Longrightarrow>
        expand_fuel n en r = expand_fuel k' en r"
    proof -
      fix tx nm r
      assume "var_ref cs' = Some (tx, nm, r)"
      from var_ref_shorter [OF this] n k'
      have "length r \<le> n" "length r \<le> k'" by simp_all
      then show "expand_fuel n en r = expand_fuel k' en r" by (rule Suc.IH)
    qed
    show ?thesis
      unfolding Cons k
      by (simp add: tail rest split: option.splits)
  qed
qed

lemma expandvars_fuel:
  "length path \<le> n \<Longrightarrow> expand_fuel n en path = expandvars en path"
  unfolding expandvars_def by (rule expand_fuel_enough) simp_all

subsection \<open>Command emission\<close>

lemma foldl_unset: "foldl (\<lambda>ret var. ret @ [''unset '' @ var]) acc ks = acc @ map (\<lambda>k. ''unset '' @ k) ks"
  by (induction ks arbitrary: acc) simp_all

lemma foldl_emit:
  "foldl (\<lambda>ret (op, m). ret @ emit_fn_inverted B ms op m) acc ops =
     acc @ concat (map (\<lambda>(op, m). case op of
                                     Op_l \<Rightarrow> ms_emit_unload_commands B ms m
                                   | Op_u \<Rightarrow> ms_emit_load_commands B ms m) ops)"
  by (induction ops arbitrary: acc)
     (auto simp: emit_fn_inverted_def split: module_op.splits)

text \<open>
  C6. \<^verbatim>\<open>emit_unload_commands\<close> returns what the specification describes: the
  \<^verbatim>\<open>unset\<close> commands of the declared variables in declared order, followed by the
  reversed module operation log with a logged load rendered by the backend's unload
  commands and a logged unload by its load commands, and, for an empty log, by the
  backend's unload commands of the declared modules in reverse order.
\<close>

theorem emit_unload_commands_spec:
  "Environment_emit_unload_commands B ms E = spec_emit_unload_commands B ms E"
proof -
  have keys: "map (\<lambda>k. ''unset '' @ k) (map fst (variables E)) =
              map (\<lambda>(k, v). ''unset '' @ k) (variables E)"
    by (induction "variables E") (auto simp: case_prod_beta)
  have fallback: "concat (map (\<lambda>(op, m). case op of
                                     Op_l \<Rightarrow> ms_emit_unload_commands B ms m
                                   | Op_u \<Rightarrow> ms_emit_load_commands B ms m)
                        (map (\<lambda>m. (Op_l, m)) xs)) =
                  concat (map (ms_emit_unload_commands B ms) xs)" for xs
    by (induction xs) simp_all
  show ?thesis
    unfolding Environment_emit_unload_commands_def spec_emit_unload_commands_def Let_def
    by (simp only: foldl_emit foldl_unset keys fallback append_Nil split: if_splits) simp
qed

subsection \<open>Snapshots\<close>

text \<open>
  C8. On every snapshot and in every ambient state, reading \<^verbatim>\<open>is_loaded\<close> and
  calling \<^verbatim>\<open>unload\<close> both end in \<^verbatim>\<open>NotImplementedError\<close>, and both leave
  the snapshot and the ambient state as they were.
\<close>

theorem snapshot_unsupported:
  "fst (EnvironmentSnapshot_is_loaded (snap, amb)) =
     Inl (NotImplementedError ''is_loaded is not a valid property of an environment snapshot'') \<and>
   snd (EnvironmentSnapshot_is_loaded (snap, amb)) = (snap, amb) \<and>
   fst (EnvironmentSnapshot_unload (snap, amb)) =
     Inl (NotImplementedError ''cannot unload an environment snapshot'') \<and>
   snd (EnvironmentSnapshot_unload (snap, amb)) = (snap, amb)"
  by (simp add: EnvironmentSnapshot_is_loaded_def EnvironmentSnapshot_unload_def)

text \<open>
  C10. Loading a snapshot makes the ambient variable mapping equal to the captured
  copy and leaves the state of the module system untouched; in particular the request
  log of a traced backend does not grow. The same holds for the exit of
  \<^verbatim>\<open>save_environment\<close>, although the snapshot it took holds the list of the
  modules that were loaded when it was taken.
\<close>

theorem snapshot_load_frame:
  "os_environ (snd (EnvironmentSnapshot_load (snap, amb))) = snap_variables snap \<and>
   modsys (snd (EnvironmentSnapshot_load (snap, amb))) = modsys amb \<and>
   snd (modsys (snd (EnvironmentSnapshot_load (snap, tamb)))) = snd (modsys tamb) \<and>
   modsys (snd (save_environment_exit (save_environment_init B amb0, amb))) = modsys amb \<and>
   snap_modules (save_environment_init B amb0) = loaded_modules B (modsys amb0)"
  by (simp add: EnvironmentSnapshot_load_def save_environment_exit_def
      save_environment_init_def EnvironmentSnapshot_init_def)

subsection \<open>is_loaded\<close>

text \<open>
  C9. \<^verbatim>\<open>is_loaded\<close> is true exactly when the backend reports every declared
  module as loaded and every declared variable is set in the ambient mapping to its
  declared value after expansion. It does not read the \<^verbatim>\<open>_loaded\<close> flag nor any
  other bookkeeping of the object, so it can be true of an Environment that was never
  loaded.
\<close>

theorem is_loaded_ambient:
  "(Environment_is_loaded B ev E amb \<longleftrightarrow>
      (\<forall>m \<in> set (modules E). is_module_loaded B (modsys amb) m) \<and>
      (\<forall>(k, v) \<in> set (variables E). os_environ amb k = Some (ev (os_environ amb) v))) \<and>
   Environment_is_loaded B ev
      (E\<lparr>loaded := l, saved_variables := sv, conflicted := cs, preloaded := ps,
         module_ops := ops\<rparr>) amb = Environment_is_loaded B ev E amb"
  by (simp add: Environment_is_loaded_def list_all_iff)

theorem is_loaded_ambient_witness:
  "is_module_loaded (simple_backend (\<lambda>m. [])) [''gcc/7.3.0''] ''gcc/7.3.0'' \<and>
   \<not> loaded (Environment_init ''gcc-env'' [''gcc/7.3.0''] [(''CC'', ''gcc'')]) \<and>
   Environment_is_loaded (simple_backend (\<lambda>m. [])) expandvars
     (Environment_init ''gcc-env'' [''gcc/7.3.0''] [(''CC'', ''gcc'')])
     \<lparr>os_environ = [''CC'' \<mapsto> ''gcc''], modsys = [''gcc/7.3.0'']\<rparr>"
  using is_loaded_ambient [of "simple_backend (\<lambda>m. [])" expandvars
      "Environment_init ''gcc-env'' [''gcc/7.3.0''] [(''CC'', ''gcc'')]"
      "\<lparr>os_environ = [''CC'' \<mapsto> ''gcc''], modsys = [''gcc/7.3.0'']\<rparr>"]
  by (simp add: Environment_init_def OrderedDict_def simple_backend_def expandvars_def)

subsection \<open>Construction\<close>

text \<open>
  C7. The constructor does not check the name: \<^verbatim>\<open>not valid\<close> is outside the
  grammar \<^verbatim>\<open>(\w|-)+\<close>, whatever the characters beyond ASCII that count as word
  characters, and \<^verbatim>\<open>Environment('not valid')\<close> returns a complete object that
  carries this name.
\<close>

theorem name_not_validated:
  "\<not> name_grammar uw ''not valid'' \<and>
   Environment_init ''not valid'' [] [] =
     \<lparr>name = ''not valid'', modules = [], variables = [], loaded = False,
      saved_variables = Map.empty, conflicted = [], preloaded = {}, module_ops = []\<rparr>"
  by (simp add: name_grammar_def is_word_char_def Environment_init_def OrderedDict_def)

lemma distinct_OrderedDict: "distinct (map fst (OrderedDict items))"
proof -
  have "distinct (map fst od) \<Longrightarrow>
        distinct (map fst (foldl (\<lambda>od (k, v). AList.update k v od) od items))" for od
    by (induction items arbitrary: od) (auto simp: distinct_update)
  then show ?thesis by (simp add: OrderedDict_def)
qed

subsection \<open>Equality\<close>

lemma alist_eq:
  "length xs = length ys \<Longrightarrow> distinct (map fst xs) \<Longrightarrow> distinct (map fst ys) \<Longrightarrow> map fst xs = map fst ys \<Longrightarrow>
   map_of xs = map_of ys \<Longrightarrow> xs = ys"
proof (induction xs ys rule: list_induct2)
  case Nil
  then show ?case by simp
next
  case (Cons x xs y ys)
  obtain k v where x: "x = (k, v)" by (cases x)
  obtain k' v' where y: "y = (k', v')" by (cases y)
  from Cons.prems x y have kk: "k' = k" by simp
  from Cons.prems(4) have "map_of (x # xs) k = map_of (y # ys) k" by (rule fun_cong)
  with x y kk have vv: "v' = v" by simp
  have "map_of xs j = map_of ys j" for j
  proof (cases "j = k")
    case True
    with Cons.prems x y kk have "j \<notin> fst ` set xs" "j \<notin> fst ` set ys" by auto
    then have "map_of xs j = None" "map_of ys j = None"
      by (simp_all add: map_of_eq_None_iff)
    then show ?thesis by simp
  next
    case False
    from Cons.prems(4) have "map_of (x # xs) j = map_of (y # ys) j" by (rule fun_cong)
    with False x y kk show ?thesis by simp
  qed
  then have "map_of xs = map_of ys" by (rule ext)
  with Cons show ?case using x y kk vv by simp
qed

text \<open>
  C2, as the code has it. Two Environments are equal exactly when they have the same
  name, the same set of modules, the same variable mapping and, in addition, the same
  order of insertion of the variables: the two \<^verbatim>\<open>OrderedDict\<close>s are compared
  item by item.
\<close>

theorem equality_ordered:
  assumes "distinct (map fst (variables A))" and "distinct (map fst (variables B))"
  shows "Environment_eq A B \<longleftrightarrow>
           spec_equal A B \<and> map fst (variables A) = map fst (variables B)"
proof
  assume "Environment_eq A B"
  then show "spec_equal A B \<and> map fst (variables A) = map fst (variables B)"
    by (simp add: Environment_eq_def spec_equal_def)
next
  assume r: "spec_equal A B \<and> map fst (variables A) = map fst (variables B)"
  then have "length (variables A) = length (variables B)"
    by (metis length_map)
  with assms r have "variables A = variables B"
    by (intro alist_eq) (simp_all add: spec_equal_def)
  with r show "Environment_eq A B"
    by (simp add: Environment_eq_def spec_equal_def)
qed

theorem equality_ordered_witness:
  "distinct (map fst (variables (Environment_init ''e'' [''a'', ''b''] [(''X'', ''1''), (''Y'', ''2'')]))) \<and>
   distinct (map fst (variables (Environment_init ''e'' [''b'', ''a'', ''a''] [(''X'', ''0''), (''Y'', ''2''), (''X'', ''1'')]))) \<and>
   Environment_eq (Environment_init ''e'' [''a'', ''b''] [(''X'', ''1''), (''Y'', ''2'')])
                  (Environment_init ''e'' [''b'', ''a'', ''a''] [(''X'', ''0''), (''Y'', ''2''), (''X'', ''1'')])"
  using equality_ordered [of "Environment_init ''e'' [''a'', ''b''] [(''X'', ''1''), (''Y'', ''2'')]"
      "Environment_init ''e'' [''b'', ''a'', ''a''] [(''X'', ''0''), (''Y'', ''2''), (''X'', ''1'')]"]
  by (auto simp: Environment_init_def OrderedDict_def spec_equal_def)

text \<open>
  Two Environments that differ only in the insertion order of their variables are equal
  in the specification's sense and compare unequal.
\<close>

theorem equality_order_counterexample:
  "spec_equal (Environment_init ''e'' [''m''] [(''X'', ''1''), (''Y'', ''2'')])
              (Environment_init ''e'' [''m''] [(''Y'', ''2''), (''X'', ''1'')]) \<and>
   \<not> Environment_eq (Environment_init ''e'' [''m''] [(''X'', ''1''), (''Y'', ''2'')])
                    (Environment_init ''e'' [''m''] [(''Y'', ''2''), (''X'', ''1'')])"
  by (auto simp: spec_equal_def Environment_eq_def Environment_init_def OrderedDict_def fun_eq_iff)

subsection \<open>The loops of load and unload\<close>

lemma foldl_module_ops:
  "foldl (\<lambda>E' c. E'\<lparr>module_ops := module_ops E' @ [(Op_u, c)]\<rparr>) E cs =
     E\<lparr>module_ops := module_ops E @ map (Pair Op_u) cs\<rparr>"
  by (induction cs arbitrary: E) simp_all

lemma load_step_eq:
  "load_step B m (E, ms) =
     (E\<lparr>preloaded := (if is_module_loaded B ms m then insert m (preloaded E) else preloaded E),
        module_ops := module_ops E @ map (Pair Op_u) (fst (load_module B ms m True)) @ [(Op_l, m)],
        conflicted := conflicted E @ fst (load_module B ms m True)\<rparr>,
      snd (load_module B ms m True))"
  by (simp add: load_step_def foldl_module_ops split_beta Let_def)

lemma load_modules_append:
  "load_modules B (xs @ ys) s = load_modules B ys (load_modules B xs s)"
  by (induction xs arbitrary: s) simp_all

lemma load_modules_frame:
  "name (fst (load_modules B xs (E, ms))) = name E \<and>
   modules (fst (load_modules B xs (E, ms))) = modules E \<and>
   variables (fst (load_modules B xs (E, ms))) = variables E \<and>
   loaded (fst (load_modules B xs (E, ms))) = loaded E \<and>
   saved_variables (fst (load_modules B xs (E, ms))) = saved_variables E"
  by (induction xs arbitrary: E ms) (simp_all add: load_step_eq)

lemma load_modules_preloaded_mono:
  "preloaded E \<subseteq> preloaded (fst (load_modules B xs (E, ms)))"
proof (induction xs arbitrary: E ms)
  case Nil
  show ?case by simp
next
  case (Cons m xs)
  have "preloaded E \<subseteq> preloaded (fst (load_step B m (E, ms)))"
    by (auto simp: load_step_eq)
  also have "\<dots> \<subseteq> preloaded (fst (load_modules B xs (load_step B m (E, ms))))"
    using Cons.IH [of "fst (load_step B m (E, ms))" "snd (load_step B m (E, ms))"] by simp
  finally show ?case by simp
qed

lemma load_modules_conflicted_mono:
  "set (conflicted E) \<subseteq> set (conflicted (fst (load_modules B xs (E, ms))))"
proof (induction xs arbitrary: E ms)
  case Nil
  show ?case by simp
next
  case (Cons m xs)
  have "set (conflicted E) \<subseteq> set (conflicted (fst (load_step B m (E, ms))))"
    by (auto simp: load_step_eq)
  also have "\<dots> \<subseteq> set (conflicted (fst (load_modules B xs (load_step B m (E, ms)))))"
    using Cons.IH [of "fst (load_step B m (E, ms))" "snd (load_step B m (E, ms))"] by simp
  finally show ?case by simp
qed

lemma set_variables_other:
  "k \<notin> fst ` set xs \<Longrightarrow>
   fst (set_variables ev xs (sv, en)) k = sv k \<and> snd (set_variables ev xs (sv, en)) k = en k"
  by (induction xs arbitrary: sv en) (auto simp: Let_def split: option.splits)

lemma set_variables_environ:
  "snd (set_variables ev xs (sv, en)) = snd (set_variables ev xs (sv', en))"
  by (induction xs arbitrary: sv sv' en) (auto simp: Let_def)

lemma set_variables_append:
  "set_variables ev (xs @ ys) s = set_variables ev ys (set_variables ev xs s)"
  by (induction xs arbitrary: s) (auto simp: Let_def)

lemma set_variables_saved:
  "distinct (map fst xs) \<Longrightarrow> k \<in> fst ` set xs \<Longrightarrow>
   fst (set_variables ev xs (sv, en)) k = (case en k of Some old \<Rightarrow> Some old | None \<Rightarrow> sv k)"
proof (induction xs arbitrary: sv en)
  case Nil
  then show ?case by simp
next
  case (Cons x xs)
  obtain k' v where x: "x = (k', v)" by (cases x)
  show ?case
  proof (cases "k = k'")
    case True
    with Cons.prems x have "k \<notin> fst ` set xs" by auto
    from set_variables_other [OF this] show ?thesis
      using x True by (simp add: Let_def split: option.splits)
  next
    case False
    with Cons.prems x have "k \<in> fst ` set xs" "distinct (map fst xs)" by auto
    from Cons.IH [OF this(2) this(1)] show ?thesis
      using x False by (simp add: Let_def split: option.splits)
  qed
qed

lemma restore_variables_other:
  "k \<notin> fst ` set xs \<Longrightarrow> restore_variables xs sv en k = en k"
  by (induction xs arbitrary: en) (auto split: option.splits)

lemma restore_variables_key:
  "k \<in> fst ` set xs \<Longrightarrow> restore_variables xs sv en k = sv k"
proof (induction xs arbitrary: en)
  case Nil
  then show ?case by simp
next
  case (Cons x xs)
  obtain k' v where x: "x = (k', v)" by (cases x)
  show ?case
  proof (cases "k \<in> fst ` set xs")
    case True
    then show ?thesis using Cons.IH x by simp
  next
    case False
    with Cons.prems x have "k = k'" by auto
    with False x show ?thesis
      by (simp add: restore_variables_other split: option.splits)
  qed
qed

lemma set_restore_variables:
  assumes "distinct (map fst xs)" and "\<forall>k \<in> fst ` set xs. sv k = None"
  shows "restore_variables xs (fst (set_variables ev xs (sv, en)))
           (snd (set_variables ev xs (sv, en))) = en"
proof (rule ext)
  fix k
  show "restore_variables xs (fst (set_variables ev xs (sv, en)))
           (snd (set_variables ev xs (sv, en))) k = en k"
  proof (cases "k \<in> fst ` set xs")
    case True
    have "sv k = None" by (rule bspec [OF assms(2) True])
    with True assms(1) show ?thesis
      by (simp add: restore_variables_key set_variables_saved split: option.splits)
  next
    case False
    then show ?thesis
      by (simp add: restore_variables_other set_variables_other)
  qed
qed

lemma Environment_load_eq:
  "Environment_load B ev (E, amb) =
     ((fst (load_modules B (modules E) (E, modsys amb)))
        \<lparr>saved_variables := fst (set_variables ev (variables E) (saved_variables E, os_environ amb)),
         loaded := True\<rparr>,
      \<lparr>os_environ = snd (set_variables ev (variables E) (saved_variables E, os_environ amb)),
       modsys = snd (load_modules B (modules E) (E, modsys amb))\<rparr>)"
  by (simp add: Environment_load_def split_beta load_modules_frame)

lemma Environment_unload_eq:
  "loaded E \<Longrightarrow> Environment_unload B (E, amb) =
     (E\<lparr>loaded := False\<rparr>,
      \<lparr>os_environ = restore_variables (variables E) (saved_variables E) (os_environ amb),
       modsys = reload_conflicted B (conflicted E)
                  (unload_modules B (rev (modules E)) (preloaded E) (modsys amb))\<rparr>)"
  by (simp add: Environment_unload_def Let_def)

subsection \<open>Variables\<close>

text \<open>
  C3. Let an Environment declare \<open>X\<close> with value \<open>new\<close>, and let \<open>X\<close> be set to \<open>old\<close>
  in the ambient mapping. After \<^verbatim>\<open>load\<close> the ambient value of \<open>X\<close> is \<open>new\<close>
  expanded against the ambient mapping as it is when the loop reaches \<open>X\<close>, that is
  after the variables declared before \<open>X\<close> have been set; after the following
  \<^verbatim>\<open>unload\<close> it is \<open>old\<close> again. The keys of an \<^verbatim>\<open>OrderedDict\<close> are
  distinct.
\<close>

theorem variable_shadow_restore:
  assumes "distinct (map fst (variables E))"
      and "variables E = pre @ (X, new) # post"
      and "os_environ amb X = Some old"
  shows "os_environ (snd (Environment_load B ev (E, amb))) X =
           Some (ev (snd (set_variables ev pre (saved_variables E, os_environ amb))) new) \<and>
         os_environ (snd (Environment_unload B (Environment_load B ev (E, amb)))) X = Some old"
proof -
  let ?mid = "set_variables ev pre (saved_variables E, os_environ amb)"
  from assms(1,2) have npre: "X \<notin> fst ` set pre" and npost: "X \<notin> fst ` set post"
    by auto
  have step: "set_variables ev (variables E) (saved_variables E, os_environ amb) =
        set_variables ev post
          ((fst ?mid)(X \<mapsto> old), (snd ?mid)(X \<mapsto> ev (snd ?mid) new))"
  proof -
    have "snd ?mid X = Some old"
      using set_variables_other [OF npre] assms(3) by simp
    then have "set_variables ev ((X, new) # post) (fst ?mid, snd ?mid) =
        set_variables ev post ((fst ?mid)(X \<mapsto> old), (snd ?mid)(X \<mapsto> ev (snd ?mid) new))"
      by (simp only: set_variables.simps Let_def option.case)
    then show ?thesis
      by (simp only: assms(2) set_variables_append set_variables.simps prod.collapse)
  qed
  have after_load: "snd (set_variables ev (variables E) (saved_variables E, os_environ amb)) X =
      Some (ev (snd ?mid) new)"
    unfolding step using set_variables_other [OF npost] by simp
  have saved: "fst (set_variables ev (variables E) (saved_variables E, os_environ amb)) X = Some old"
    unfolding step using set_variables_other [OF npost] by simp
  have key: "X \<in> fst ` set (variables E)"
    by (simp add: assms(2))
  have "os_environ (snd (Environment_unload B (Environment_load B ev (E, amb)))) X = Some old"
    by (simp add: Environment_load_eq Environment_unload_eq load_modules_frame
        restore_variables_key [OF key] saved)
  with after_load show ?thesis
    by (simp add: Environment_load_eq)
qed

theorem variable_shadow_restore_witness:
  "distinct (map fst (variables (Environment_init ''e'' [] [(''A'', ''1''), (''X'', ''$A:${X}'')]))) \<and>
   variables (Environment_init ''e'' [] [(''A'', ''1''), (''X'', ''$A:${X}'')]) =
     [(''A'', ''1'')] @ (''X'', ''$A:${X}'') # [] \<and>
   os_environ \<lparr>os_environ = [''X'' \<mapsto> ''old''], modsys = []\<rparr> ''X'' = Some ''old'' \<and>
   os_environ (snd (Environment_load (simple_backend (\<lambda>m. [])) expandvars
     (Environment_init ''e'' [] [(''A'', ''1''), (''X'', ''$A:${X}'')],
      \<lparr>os_environ = [''X'' \<mapsto> ''old''], modsys = []\<rparr>))) ''X'' = Some ''1:old'' \<and>
   os_environ (snd (Environment_unload (simple_backend (\<lambda>m. []))
     (Environment_load (simple_backend (\<lambda>m. [])) expandvars
       (Environment_init ''e'' [] [(''A'', ''1''), (''X'', ''$A:${X}'')],
        \<lparr>os_environ = [''X'' \<mapsto> ''old''], modsys = []\<rparr>)))) ''X'' = Some ''old''"
  using variable_shadow_restore [of "Environment_init ''e'' [] [(''A'', ''1''), (''X'', ''$A:${X}'')]"
      "[(''A'', ''1'')]" "''X''" "''$A:${X}''" "[]"
      "\<lparr>os_environ = [''X'' \<mapsto> ''old''], modsys = []\<rparr>" "''old''"
      "simple_backend (\<lambda>m. [])" expandvars]
  by (simp add: Environment_init_def OrderedDict_def expandvars_def var_ref_def
      is_word_char_def Let_def)

subsection \<open>Requests seen by a traced backend\<close>

lemma traced_simps:
  "is_module_loaded (traced B) (ms, log) m = is_module_loaded B ms m"
  "load_module (traced B) (ms, log) m f =
     (fst (load_module B ms m f), (snd (load_module B ms m f), log @ [Req_load m f]))"
  "unload_module (traced B) (ms, log) m = (unload_module B ms m, log @ [Req_unload m])"
  "loaded_modules (traced B) (ms, log) = loaded_modules B ms"
  by (simp_all add: traced_def)

lemma traced_load_modules:
  "\<exists>log'. load_modules (traced B) xs (E, (ms, log)) =
     (fst (load_modules B xs (E, ms)), (snd (load_modules B xs (E, ms)), log'))"
proof (induction xs arbitrary: E ms log)
  case Nil
  show ?case by simp
next
  case (Cons m xs)
  have "load_step (traced B) m (E, (ms, log)) =
      (fst (load_step B m (E, ms)), (snd (load_step B m (E, ms)), log @ [Req_load m True]))"
    by (simp add: load_step_eq traced_simps)
  with Cons.IH [of "fst (load_step B m (E, ms))" "snd (load_step B m (E, ms))"
      "log @ [Req_load m True]"]
  show ?case by simp
qed

lemma traced_unload_modules:
  "unload_modules (traced B) xs P (ms, log) =
     (unload_modules B xs P ms, log @ map Req_unload (filter (\<lambda>m. m \<notin> P) xs))"
  by (induction xs arbitrary: ms log) (simp_all add: traced_simps)

lemma traced_reload_conflicted:
  "reload_conflicted (traced B) cs (ms, log) =
     (reload_conflicted B cs ms, log @ map (\<lambda>c. Req_load c False) cs)"
  by (induction cs arbitrary: ms log) (simp_all add: traced_simps)

lemma load_modules_preloaded:
  assumes "is_module_loaded B (snd (load_modules B pre (E, ms))) m"
  shows "m \<in> preloaded (fst (load_modules B (pre @ m # post) (E, ms)))"
proof -
  obtain E1 ms1 where s1: "load_modules B pre (E, ms) = (E1, ms1)"
    by (cases "load_modules B pre (E, ms)")
  with assms have "m \<in> preloaded (fst (load_step B m (E1, ms1)))"
    by (simp add: load_step_eq)
  moreover have "preloaded (fst (load_step B m (E1, ms1))) \<subseteq>
      preloaded (fst (load_modules B post (load_step B m (E1, ms1))))"
    using load_modules_preloaded_mono [of "fst (load_step B m (E1, ms1))" B post
        "snd (load_step B m (E1, ms1))"] by simp
  ultimately show ?thesis
    by (auto simp: load_modules_append s1)
qed

lemmas run_defs = Environment_load_def Environment_unload_def load_step_def simple_backend_def
  Environment_init_def OrderedDict_def expandvars_def var_ref_def is_word_char_def Let_def
  split_beta traced_def

subsection \<open>Preloaded modules\<close>

text \<open>
  C5. Let \<open>m\<close> be a declared module that the backend reports as loaded when the loop
  of \<^verbatim>\<open>load\<close> reaches it, that is in the state the module system has after the
  modules declared before \<open>m\<close> have been loaded. Run \<^verbatim>\<open>load\<close> and then
  \<^verbatim>\<open>unload\<close> on a traced backend: the requests that \<^verbatim>\<open>unload\<close> appends to
  the log contain no unload request for \<open>m\<close>. This holds for every Environment, whatever
  its earlier history.
\<close>

theorem preloaded_never_unloaded:
  assumes "modules E = pre @ m # post"
      and "is_module_loaded B (snd (load_modules B pre (E, ms))) m"
  shows "\<exists>issued.
           snd (modsys (snd (Environment_unload (traced B)
                 (Environment_load (traced B) ev (E, \<lparr>os_environ = en, modsys = (ms, log)\<rparr>))))) =
           snd (modsys (snd (Environment_load (traced B) ev
                 (E, \<lparr>os_environ = en, modsys = (ms, log)\<rparr>)))) @ issued \<and>
           Req_unload m \<notin> set issued"
proof -
  let ?s = "load_modules (traced B) (modules E) (E, (ms, log))"
  obtain log1 where pre: "load_modules (traced B) pre (E, (ms, log)) =
      (fst (load_modules B pre (E, ms)), (snd (load_modules B pre (E, ms)), log1))"
    using traced_load_modules [of B pre E ms log] by auto
  have "is_module_loaded (traced B) (snd (load_modules (traced B) pre (E, (ms, log)))) m"
    by (simp add: pre traced_simps assms(2))
  then have m: "m \<in> preloaded (fst ?s)"
    unfolding assms(1) by (rule load_modules_preloaded)
  obtain ms1 log2 where s: "snd ?s = (ms1, log2)"
    by (cases "snd ?s")
  let ?issued = "map Req_unload (filter (\<lambda>x. x \<notin> preloaded (fst ?s)) (rev (modules E))) @
      map (\<lambda>c. Req_load c False) (conflicted (fst ?s))"
  have "snd (modsys (snd (Environment_unload (traced B)
          (Environment_load (traced B) ev (E, \<lparr>os_environ = en, modsys = (ms, log)\<rparr>))))) =
        snd (modsys (snd (Environment_load (traced B) ev
          (E, \<lparr>os_environ = en, modsys = (ms, log)\<rparr>)))) @ ?issued"
    by (simp add: Environment_load_eq Environment_unload_eq load_modules_frame s
        traced_unload_modules traced_reload_conflicted)
  moreover from m have "Req_unload m \<notin> set ?issued"
    by auto
  ultimately show ?thesis by blast
qed

theorem preloaded_never_unloaded_witness:
  "modules (Environment_init ''e'' [''A'', ''B''] []) = [] @ ''A'' # [''B''] \<and>
   is_module_loaded (simple_backend (\<lambda>m. []))
     (snd (load_modules (simple_backend (\<lambda>m. [])) []
        (Environment_init ''e'' [''A'', ''B''] [], [''A'']))) ''A'' \<and>
   (\<exists>issued.
      snd (modsys (snd (Environment_unload (traced (simple_backend (\<lambda>m. [])))
        (Environment_load (traced (simple_backend (\<lambda>m. []))) expandvars
          (Environment_init ''e'' [''A'', ''B''] [],
           \<lparr>os_environ = Map.empty, modsys = ([''A''], [])\<rparr>))))) =
      snd (modsys (snd (Environment_load (traced (simple_backend (\<lambda>m. []))) expandvars
          (Environment_init ''e'' [''A'', ''B''] [],
           \<lparr>os_environ = Map.empty, modsys = ([''A''], [])\<rparr>)))) @ issued \<and>
      Req_unload ''A'' \<notin> set issued)"
  using preloaded_never_unloaded [of "Environment_init ''e'' [''A'', ''B''] []" "[]" "''A''"
      "[''B'']" "simple_backend (\<lambda>m. [])" "[''A'']" expandvars Map.empty "[]"]
  by (simp add: Environment_init_def simple_backend_def)

subsection \<open>Backends that honour the contract\<close>

lemma contract_is_loaded:
  "backend_contract B \<Longrightarrow> is_module_loaded B ms m = (m \<in> set (loaded_modules B ms))"
  by (simp add: backend_contract_def)

lemma contract_load_loaded:
  assumes "backend_contract B" and "m \<in> set (loaded_modules B ms)"
  shows "fst (load_module B ms m f) = [] \<and>
   set (loaded_modules B (snd (load_module B ms m f))) = set (loaded_modules B ms)"
proof -
  from assms(1) have "\<forall>ms m f. is_module_loaded B ms m \<longrightarrow>
        fst (load_module B ms m f) = [] \<and>
        set (loaded_modules B (snd (load_module B ms m f))) = set (loaded_modules B ms)"
    unfolding backend_contract_def by (elim conjE)
  moreover from assms have "is_module_loaded B ms m"
    by (simp add: contract_is_loaded)
  ultimately show ?thesis by (elim allE impE)
qed

lemma contract_load_new:
  assumes "backend_contract B" and "m \<notin> set (loaded_modules B ms)"
  shows "set (fst (load_module B ms m f)) \<subseteq> set (loaded_modules B ms) \<and>
   (\<not> f \<longrightarrow> fst (load_module B ms m f) = []) \<and>
   set (loaded_modules B (snd (load_module B ms m f))) =
     (set (loaded_modules B ms) - set (fst (load_module B ms m f))) \<union> {m}"
proof -
  from assms(1) have "\<forall>ms m f. \<not> is_module_loaded B ms m \<longrightarrow>
        set (fst (load_module B ms m f)) \<subseteq> set (loaded_modules B ms) \<and>
        (\<not> f \<longrightarrow> fst (load_module B ms m f) = []) \<and>
        set (loaded_modules B (snd (load_module B ms m f))) =
          (set (loaded_modules B ms) - set (fst (load_module B ms m f))) \<union> {m}"
    unfolding backend_contract_def by (elim conjE)
  moreover from assms have "\<not> is_module_loaded B ms m"
    by (simp add: contract_is_loaded)
  ultimately show ?thesis by (elim allE impE)
qed

lemma contract_unload:
  "backend_contract B \<Longrightarrow>
   set (loaded_modules B (unload_module B ms m)) = set (loaded_modules B ms) - {m}"
  by (simp add: backend_contract_def)

lemma simple_backend_contract: "backend_contract (simple_backend conflicts)"
  by (auto simp: backend_contract_def simple_backend_def Let_def)

lemma unload_modules_set:
  assumes "backend_contract B"
  shows "set (loaded_modules B (unload_modules B xs P ms)) =
           set (loaded_modules B ms) - (set xs - P)"
proof (induction xs arbitrary: ms)
  case Nil
  show ?case by simp
next
  case (Cons m xs)
  show ?case
    by (auto simp: Cons.IH contract_unload [OF assms])
qed

lemma reload_conflicted_set:
  assumes "backend_contract B"
  shows "set (loaded_modules B (reload_conflicted B cs ms)) =
           set (loaded_modules B ms) \<union> set cs"
proof (induction cs arbitrary: ms)
  case Nil
  show ?case by simp
next
  case (Cons c cs)
  have "set (loaded_modules B (snd (load_module B ms c False))) =
      insert c (set (loaded_modules B ms))"
  proof (cases "c \<in> set (loaded_modules B ms)")
    case True
    with contract_load_loaded [OF assms True, of False] show ?thesis by auto
  next
    case False
    with contract_load_new [OF assms False, of False] show ?thesis by auto
  qed
  then show ?case
    by (simp add: Cons.IH)
qed

text \<open>The module loop of \<^verbatim>\<open>load\<close>, seen through the set of loaded modules.\<close>

lemma load_modules_set:
  assumes "backend_contract B"
  shows "distinct xs \<Longrightarrow>
     \<exists>cn. conflicted (fst (load_modules B xs (E, ms))) = conflicted E @ cn \<and>
       (set cn \<inter> set xs = {} \<longrightarrow>
          set cn \<subseteq> set (loaded_modules B ms) \<and>
          set (loaded_modules B (snd (load_modules B xs (E, ms)))) =
            (set (loaded_modules B ms) - set cn) \<union> set xs \<and>
          preloaded (fst (load_modules B xs (E, ms))) =
            preloaded E \<union> (set xs \<inter> set (loaded_modules B ms)))"
proof (induction xs arbitrary: E ms)
  case Nil
  show ?case by simp
next
  case (Cons m xs)
  let ?cs = "fst (load_module B ms m True)"
  let ?E1 = "fst (load_step B m (E, ms))"
  let ?ms1 = "snd (load_step B m (E, ms))"
  let ?L = "set (loaded_modules B ms)"
  from Cons.prems have dist: "distinct xs" and mxs: "m \<notin> set xs" by simp_all
  have c1: "conflicted ?E1 = conflicted E @ ?cs"
    by (simp add: load_step_eq)
  have p1: "preloaded ?E1 = (if m \<in> ?L then insert m (preloaded E) else preloaded E)"
    by (simp add: load_step_eq contract_is_loaded [OF assms])
  have ms1: "?ms1 = snd (load_module B ms m True)"
    by (simp add: load_step_eq)
  from Cons.IH [OF dist, of ?E1 ?ms1] obtain cn where
    cn: "conflicted (fst (load_modules B xs (?E1, ?ms1))) = conflicted ?E1 @ cn" and
    rest: "set cn \<inter> set xs = {} \<Longrightarrow>
          set cn \<subseteq> set (loaded_modules B ?ms1) \<and>
          set (loaded_modules B (snd (load_modules B xs (?E1, ?ms1)))) =
            (set (loaded_modules B ?ms1) - set cn) \<union> set xs \<and>
          preloaded (fst (load_modules B xs (?E1, ?ms1))) =
            preloaded ?E1 \<union> (set xs \<inter> set (loaded_modules B ?ms1))"
    by auto
  have A: "conflicted (fst (load_modules B (m # xs) (E, ms))) = conflicted E @ (?cs @ cn)"
    using cn c1 by simp
  have R: "set (?cs @ cn) \<subseteq> ?L \<and>
      set (loaded_modules B (snd (load_modules B (m # xs) (E, ms)))) =
        (?L - set (?cs @ cn)) \<union> set (m # xs) \<and>
      preloaded (fst (load_modules B (m # xs) (E, ms))) =
        preloaded E \<union> (set (m # xs) \<inter> ?L)"
    if disj: "set (?cs @ cn) \<inter> set (m # xs) = {}"
  proof -
    from disj have d1: "set cn \<inter> set xs = {}" and d2: "m \<notin> set cn"
      and d3: "set ?cs \<inter> set xs = {}" and d4: "m \<notin> set ?cs" by auto
    note r = rest [OF d1]
    show ?thesis
    proof (cases "m \<in> ?L")
      case True
      from contract_load_loaded [OF assms True, of True]
      have cs: "?cs = []" and L1: "set (loaded_modules B ?ms1) = ?L"
        by (simp_all add: ms1)
      from r show ?thesis
        unfolding L1 p1 using True cs d2 mxs by auto
    next
      case False
      from contract_load_new [OF assms False, of True]
      have cs: "set ?cs \<subseteq> ?L" and L1: "set (loaded_modules B ?ms1) = (?L - set ?cs) \<union> {m}"
        by (simp_all add: ms1)
      from r show ?thesis
        unfolding L1 p1 using False cs d2 d3 mxs by auto
    qed
  qed
  then have I: "set (?cs @ cn) \<inter> set (m # xs) = {} \<longrightarrow>
      set (?cs @ cn) \<subseteq> ?L \<and>
      set (loaded_modules B (snd (load_modules B (m # xs) (E, ms)))) =
        (?L - set (?cs @ cn)) \<union> set (m # xs) \<and>
      preloaded (fst (load_modules B (m # xs) (E, ms))) =
        preloaded E \<union> (set (m # xs) \<inter> ?L)"
    by (rule impI)
  show ?case
    by (rule exI [of _ "?cs @ cn"], rule conjI, rule A, rule I)
qed

lemma load_modules_conflicted:
  assumes "a \<in> set (fst (load_module B (snd (load_modules B pre (E, ms))) b True))"
  shows "a \<in> set (conflicted (fst (load_modules B (pre @ b # post) (E, ms))))"
proof -
  obtain E1 ms1 where s1: "load_modules B pre (E, ms) = (E1, ms1)"
    by (cases "load_modules B pre (E, ms)")
  with assms have "a \<in> set (conflicted (fst (load_step B b (E1, ms1))))"
    by (simp add: load_step_eq)
  moreover have "set (conflicted (fst (load_step B b (E1, ms1)))) \<subseteq>
      set (conflicted (fst (load_modules B post (load_step B b (E1, ms1)))))"
    using load_modules_conflicted_mono [of "fst (load_step B b (E1, ms1))" B post
        "snd (load_step B b (E1, ms1))"] by simp
  ultimately show ?thesis
    by (auto simp: load_modules_append s1)
qed

subsection \<open>Round trip\<close>

text \<open>
  C1, as the code has it. Take a freshly constructed Environment whose declared modules
  are pairwise distinct, any ambient state, and a backend that honours the contract. If
  no declared module is reported in a conflict list during \<^verbatim>\<open>load\<close>, then
  \<^verbatim>\<open>load\<close> followed by \<^verbatim>\<open>unload\<close> leaves the ambient variable mapping and
  the set of loaded modules as they were.
\<close>

theorem load_unload_round_trip:
  assumes "backend_contract B"
      and "distinct mods"
      and "set (conflicted (fst (Environment_load B ev (Environment_init nm mods vars, amb)))) \<inter>
             set mods = {}"
  shows "os_environ (snd (Environment_unload B
            (Environment_load B ev (Environment_init nm mods vars, amb)))) = os_environ amb \<and>
         set (loaded_modules B (modsys (snd (Environment_unload B
            (Environment_load B ev (Environment_init nm mods vars, amb)))))) =
           set (loaded_modules B (modsys amb))"
proof -
  let ?E = "Environment_init nm mods vars"
  let ?s = "load_modules B mods (?E, modsys amb)"
  let ?L = "set (loaded_modules B (modsys amb))"
  have fresh: "modules ?E = mods" "variables ?E = OrderedDict vars"
      "saved_variables ?E = Map.empty" "conflicted ?E = []" "preloaded ?E = {}"
    by (simp_all add: Environment_init_def)
  have vars: "restore_variables (OrderedDict vars)
      (fst (set_variables ev (OrderedDict vars) (Map.empty, os_environ amb)))
      (snd (set_variables ev (OrderedDict vars) (Map.empty, os_environ amb))) = os_environ amb"
    by (rule set_restore_variables) (simp_all add: distinct_OrderedDict)
  from load_modules_set [OF assms(1,2), of ?E "modsys amb"] obtain cn where
    cn: "conflicted (fst ?s) = cn" and
    inv: "set cn \<inter> set mods = {} \<Longrightarrow>
          set cn \<subseteq> ?L \<and>
          set (loaded_modules B (snd ?s)) = (?L - set cn) \<union> set mods \<and>
          preloaded (fst ?s) = set mods \<inter> ?L"
    by (auto simp: fresh)
  from assms(3) have "set cn \<inter> set mods = {}"
    by (simp add: Environment_load_eq fresh cn)
  note i = inv [OF this] this
  have "set (loaded_modules B (reload_conflicted B (conflicted (fst ?s))
          (unload_modules B (rev mods) (preloaded (fst ?s)) (snd ?s)))) = ?L"
    unfolding reload_conflicted_set [OF assms(1)] unload_modules_set [OF assms(1)] cn
    using i by auto
  with vars show ?thesis
    by (simp add: Environment_load_eq Environment_unload_eq load_modules_frame fresh)
qed

theorem load_unload_round_trip_witness:
  "backend_contract (simple_backend (\<lambda>m. if m = ''B'' then [''A''] else [])) \<and>
   distinct [''B'', ''C''] \<and>
   set (conflicted (fst (Environment_load (simple_backend (\<lambda>m. if m = ''B'' then [''A''] else []))
        expandvars
        (Environment_init ''e'' [''B'', ''C''] [(''X'', ''new''), (''Y'', ''$X'')],
         \<lparr>os_environ = [''X'' \<mapsto> ''old''], modsys = [''A'', ''C'']\<rparr>)))) \<inter>
     set [''B'', ''C''] = {} \<and>
   os_environ (snd (Environment_unload (simple_backend (\<lambda>m. if m = ''B'' then [''A''] else []))
     (Environment_load (simple_backend (\<lambda>m. if m = ''B'' then [''A''] else [])) expandvars
        (Environment_init ''e'' [''B'', ''C''] [(''X'', ''new''), (''Y'', ''$X'')],
         \<lparr>os_environ = [''X'' \<mapsto> ''old''], modsys = [''A'', ''C'']\<rparr>)))) =
     [''X'' \<mapsto> ''old''] \<and>
   set (loaded_modules (simple_backend (\<lambda>m. if m = ''B'' then [''A''] else []))
     (modsys (snd (Environment_unload (simple_backend (\<lambda>m. if m = ''B'' then [''A''] else []))
       (Environment_load (simple_backend (\<lambda>m. if m = ''B'' then [''A''] else [])) expandvars
        (Environment_init ''e'' [''B'', ''C''] [(''X'', ''new''), (''Y'', ''$X'')],
         \<lparr>os_environ = [''X'' \<mapsto> ''old''], modsys = [''A'', ''C'']\<rparr>)))))) =
     set [''A'', ''C'']"
proof -
  have c: "backend_contract (simple_backend (\<lambda>m. if m = ''B'' then [''A''] else []))"
    by (rule simple_backend_contract)
  have d: "distinct [''B'', ''C'']" by simp
  have e: "set (conflicted (fst (Environment_load (simple_backend (\<lambda>m. if m = ''B'' then [''A''] else []))
        expandvars
        (Environment_init ''e'' [''B'', ''C''] [(''X'', ''new''), (''Y'', ''$X'')],
         \<lparr>os_environ = [''X'' \<mapsto> ''old''], modsys = [''A'', ''C'']\<rparr>)))) \<inter>
     set [''B'', ''C''] = {}"
    by (simp add: run_defs)
  have l: "loaded_modules (simple_backend (\<lambda>m. if m = ''B'' then [''A''] else []))
      [''A'', ''C''] = [''A'', ''C'']"
    by (simp add: simple_backend_def)
  from load_unload_round_trip [OF c d e] c d e show ?thesis
    by (simp add: l)
qed

text \<open>
  Three runs on backends that honour the contract, in which \<^verbatim>\<open>load\<close> followed by
  \<^verbatim>\<open>unload\<close> does not give the starting state back. A module declared twice is
  taken for preloaded at its second occurrence and stays loaded. An Environment that
  saved \<open>X = old\<close> in an earlier cycle still holds that value and sets it at the end
  of a cycle that started with \<open>X\<close> unset. A declared module that a later declared module
  forces out is loaded again at the end, although nothing was loaded at the start.
\<close>

theorem round_trip_counterexample:
  "backend_contract (simple_backend (\<lambda>m. [])) \<and>
   set (loaded_modules (simple_backend (\<lambda>m. []))
     (modsys (snd (Environment_unload (simple_backend (\<lambda>m. []))
       (Environment_load (simple_backend (\<lambda>m. [])) expandvars
         (Environment_init ''e'' [''A'', ''A''] [],
          \<lparr>os_environ = Map.empty, modsys = []\<rparr>)))))) \<noteq>
   set (loaded_modules (simple_backend (\<lambda>m. []))
     (modsys \<lparr>os_environ = Map.empty, modsys = []\<rparr>)) \<and>
   os_environ (snd (Environment_unload (simple_backend (\<lambda>m. []))
     (Environment_load (simple_backend (\<lambda>m. [])) expandvars
       (fst (Environment_unload (simple_backend (\<lambda>m. []))
          (Environment_load (simple_backend (\<lambda>m. [])) expandvars
             (Environment_init ''e'' [] [(''X'', ''new'')],
              \<lparr>os_environ = [''X'' \<mapsto> ''old''], modsys = []\<rparr>))),
        \<lparr>os_environ = Map.empty, modsys = []\<rparr>)))) ''X'' \<noteq>
   os_environ \<lparr>os_environ = Map.empty, modsys = []\<rparr> ''X'' \<and>
   backend_contract (simple_backend (\<lambda>m. if m = ''B'' then [''A''] else [])) \<and>
   set (loaded_modules (simple_backend (\<lambda>m. if m = ''B'' then [''A''] else []))
     (modsys (snd (Environment_unload (simple_backend (\<lambda>m. if m = ''B'' then [''A''] else []))
       (Environment_load (simple_backend (\<lambda>m. if m = ''B'' then [''A''] else [])) expandvars
         (Environment_init ''e'' [''A'', ''B''] [],
          \<lparr>os_environ = Map.empty, modsys = []\<rparr>)))))) \<noteq>
   set (loaded_modules (simple_backend (\<lambda>m. if m = ''B'' then [''A''] else []))
     (modsys \<lparr>os_environ = Map.empty, modsys = []\<rparr>))"
  by (simp add: simple_backend_contract) (simp add: run_defs)

subsection \<open>Conflicts\<close>

text \<open>
  C4, as the code has it. Let the backend honour the contract, let loading the declared
  module \<open>b\<close> report \<open>a\<close> in its conflict list, and let \<open>a\<close> not be in
  \<^verbatim>\<open>_preloaded\<close> after \<^verbatim>\<open>load\<close>. If moreover \<open>b\<close> is, after
  \<^verbatim>\<open>load\<close>, neither in \<^verbatim>\<open>_preloaded\<close> nor in \<^verbatim>\<open>_conflicted\<close>,
  then after the following \<^verbatim>\<open>unload\<close> the module \<open>a\<close> is loaded and \<open>b\<close> is
  not. Both collections are meant as the object holds them: with what this
  \<^verbatim>\<open>load\<close> recorded and with whatever earlier cycles left in them.
\<close>

theorem conflict_restore:
  assumes "backend_contract B"
      and "modules E = pre @ b # post"
      and "a \<in> set (fst (load_module B (snd (load_modules B pre (E, modsys amb))) b True))"
      and "a \<notin> preloaded (fst (Environment_load B ev (E, amb)))"
      and "b \<notin> preloaded (fst (Environment_load B ev (E, amb)))"
      and "b \<notin> set (conflicted (fst (Environment_load B ev (E, amb))))"
  shows "is_module_loaded B (modsys (snd (Environment_unload B
            (Environment_load B ev (E, amb))))) a \<and>
         \<not> is_module_loaded B (modsys (snd (Environment_unload B
            (Environment_load B ev (E, amb))))) b"
proof -
  let ?s = "load_modules B (modules E) (E, modsys amb)"
  have a: "a \<in> set (conflicted (fst ?s))"
    unfolding assms(2) using assms(3) by (rule load_modules_conflicted)
  from assms(5) have bp: "b \<notin> preloaded (fst ?s)"
    by (simp add: Environment_load_eq)
  from assms(6) have bc: "b \<notin> set (conflicted (fst ?s))"
    by (simp add: Environment_load_eq)
  have bm: "b \<in> set (modules E)"
    by (simp add: assms(2))
  have "set (loaded_modules B (modsys (snd (Environment_unload B
            (Environment_load B ev (E, amb)))))) =
        (set (loaded_modules B (snd ?s)) - (set (modules E) - preloaded (fst ?s))) \<union>
          set (conflicted (fst ?s))"
    by (simp add: Environment_load_eq Environment_unload_eq load_modules_frame
        reload_conflicted_set [OF assms(1)] unload_modules_set [OF assms(1)])
  with a bp bc bm show ?thesis
    by (simp add: contract_is_loaded [OF assms(1)])
qed

theorem conflict_restore_witness:
  "backend_contract (simple_backend (\<lambda>m. if m = ''B'' then [''A''] else [])) \<and>
   modules (Environment_init ''e'' [''C'', ''B''] []) = [''C''] @ ''B'' # [] \<and>
   ''A'' \<in> set (fst (load_module (simple_backend (\<lambda>m. if m = ''B'' then [''A''] else []))
      (snd (load_modules (simple_backend (\<lambda>m. if m = ''B'' then [''A''] else [])) [''C'']
         (Environment_init ''e'' [''C'', ''B''] [],
          modsys \<lparr>os_environ = Map.empty, modsys = [''A'']\<rparr>))) ''B'' True)) \<and>
   ''A'' \<notin> preloaded (fst (Environment_load (simple_backend (\<lambda>m. if m = ''B'' then [''A''] else []))
      expandvars (Environment_init ''e'' [''C'', ''B''] [],
         \<lparr>os_environ = Map.empty, modsys = [''A'']\<rparr>))) \<and>
   ''B'' \<notin> preloaded (fst (Environment_load (simple_backend (\<lambda>m. if m = ''B'' then [''A''] else []))
      expandvars (Environment_init ''e'' [''C'', ''B''] [],
         \<lparr>os_environ = Map.empty, modsys = [''A'']\<rparr>))) \<and>
   ''B'' \<notin> set (conflicted (fst (Environment_load
      (simple_backend (\<lambda>m. if m = ''B'' then [''A''] else []))
      expandvars (Environment_init ''e'' [''C'', ''B''] [],
         \<lparr>os_environ = Map.empty, modsys = [''A'']\<rparr>)))) \<and>
   is_module_loaded (simple_backend (\<lambda>m. if m = ''B'' then [''A''] else []))
     (modsys (snd (Environment_unload (simple_backend (\<lambda>m. if m = ''B'' then [''A''] else []))
        (Environment_load (simple_backend (\<lambda>m. if m = ''B'' then [''A''] else [])) expandvars
           (Environment_init ''e'' [''C'', ''B''] [],
            \<lparr>os_environ = Map.empty, modsys = [''A'']\<rparr>))))) ''A'' \<and>
   \<not> is_module_loaded (simple_backend (\<lambda>m. if m = ''B'' then [''A''] else []))
     (modsys (snd (Environment_unload (simple_backend (\<lambda>m. if m = ''B'' then [''A''] else []))
        (Environment_load (simple_backend (\<lambda>m. if m = ''B'' then [''A''] else [])) expandvars
           (Environment_init ''e'' [''C'', ''B''] [],
            \<lparr>os_environ = Map.empty, modsys = [''A'']\<rparr>))))) ''B''"
proof -
  let ?B = "simple_backend (\<lambda>m. if m = ''B'' then [''A''] else [])"
  let ?E = "Environment_init ''e'' [''C'', ''B''] []"
  let ?amb = "\<lparr>os_environ = Map.empty, modsys = [''A'']\<rparr> :: string list ambient"
  have h1: "backend_contract ?B" by (rule simple_backend_contract)
  have h2: "modules ?E = [''C''] @ ''B'' # []" by (simp add: Environment_init_def)
  have h3: "''A'' \<in> set (fst (load_module ?B (snd (load_modules ?B [''C''] (?E, modsys ?amb)))
      ''B'' True))"
    by (simp add: run_defs)
  have h4: "''A'' \<notin> preloaded (fst (Environment_load ?B expandvars (?E, ?amb)))"
    by (simp add: run_defs)
  have h5: "''B'' \<notin> preloaded (fst (Environment_load ?B expandvars (?E, ?amb)))"
    by (simp add: run_defs)
  have h6: "''B'' \<notin> set (conflicted (fst (Environment_load ?B expandvars (?E, ?amb))))"
    by (simp add: run_defs)
  from conflict_restore [OF h1 h2 h3 h4 h5 h6] h1 h2 h3 h4 h5 h6 show ?thesis
    by blast
qed

text \<open>
  Two runs in which \<open>a\<close> is reported when \<open>b\<close> is loaded, \<open>a\<close> is not recorded as
  preloaded, and \<open>b\<close> is still loaded after \<^verbatim>\<open>unload\<close>. In the first, \<open>b\<close> is
  declared twice: its second occurrence finds it loaded and records it as preloaded, so
  \<^verbatim>\<open>unload\<close> never unloads it. In the second, the Environment has been through an
  earlier cycle that left \<open>b\<close> in \<^verbatim>\<open>_conflicted\<close>: in the next cycle no load
  reports \<open>b\<close> and nothing is recorded as preloaded, yet \<^verbatim>\<open>unload\<close> loads
  \<open>b\<close> again together with the rest of the list.
\<close>

theorem conflict_restore_counterexample:
  "backend_contract (simple_backend (\<lambda>m. if m = ''B'' then [''A''] else [])) \<and>
   ''A'' \<in> set (fst (load_module (simple_backend (\<lambda>m. if m = ''B'' then [''A''] else []))
      [''A''] ''B'' True)) \<and>
   ''A'' \<notin> preloaded (fst (Environment_load (simple_backend (\<lambda>m. if m = ''B'' then [''A''] else []))
      expandvars (Environment_init ''e'' [''B'', ''B''] [],
         \<lparr>os_environ = Map.empty, modsys = [''A'']\<rparr>))) \<and>
   is_module_loaded (simple_backend (\<lambda>m. if m = ''B'' then [''A''] else []))
     (modsys (snd (Environment_unload (simple_backend (\<lambda>m. if m = ''B'' then [''A''] else []))
        (Environment_load (simple_backend (\<lambda>m. if m = ''B'' then [''A''] else [])) expandvars
           (Environment_init ''e'' [''B'', ''B''] [],
            \<lparr>os_environ = Map.empty, modsys = [''A'']\<rparr>))))) ''B'' \<and>
   backend_contract
     (simple_backend (\<lambda>m. if m = ''C'' then [''B''] else if m = ''B'' then [''A''] else [])) \<and>
   conflicted (fst (Environment_unload
     (simple_backend (\<lambda>m. if m = ''C'' then [''B''] else if m = ''B'' then [''A''] else []))
     (Environment_load
        (simple_backend (\<lambda>m. if m = ''C'' then [''B''] else if m = ''B'' then [''A''] else []))
        expandvars
        (Environment_init ''e'' [''C'', ''B''] [],
         \<lparr>os_environ = Map.empty, modsys = [''B'']\<rparr>)))) = [''B''] \<and>
   fst (load_module
     (simple_backend (\<lambda>m. if m = ''C'' then [''B''] else if m = ''B'' then [''A''] else []))
     [''A''] ''C'' True) = [] \<and>
   fst (load_module
     (simple_backend (\<lambda>m. if m = ''C'' then [''B''] else if m = ''B'' then [''A''] else []))
     [''A'', ''C''] ''B'' True) = [''A''] \<and>
   preloaded (fst (Environment_load
     (simple_backend (\<lambda>m. if m = ''C'' then [''B''] else if m = ''B'' then [''A''] else []))
     expandvars
     (fst (Environment_unload
        (simple_backend (\<lambda>m. if m = ''C'' then [''B''] else if m = ''B'' then [''A''] else []))
        (Environment_load
           (simple_backend (\<lambda>m. if m = ''C'' then [''B''] else if m = ''B'' then [''A''] else []))
           expandvars
           (Environment_init ''e'' [''C'', ''B''] [],
            \<lparr>os_environ = Map.empty, modsys = [''B'']\<rparr>))),
      \<lparr>os_environ = Map.empty, modsys = [''A'']\<rparr>))) = {} \<and>
   is_module_loaded
     (simple_backend (\<lambda>m. if m = ''C'' then [''B''] else if m = ''B'' then [''A''] else []))
     (modsys (snd (Environment_unload
       (simple_backend (\<lambda>m. if m = ''C'' then [''B''] else if m = ''B'' then [''A''] else []))
       (Environment_load
         (simple_backend (\<lambda>m. if m = ''C'' then [''B''] else if m = ''B'' then [''A''] else []))
         expandvars
         (fst (Environment_unload
            (simple_backend (\<lambda>m. if m = ''C'' then [''B''] else if m = ''B'' then [''A''] else []))
            (Environment_load
               (simple_backend (\<lambda>m. if m = ''C'' then [''B''] else if m = ''B'' then [''A''] else []))
               expandvars
               (Environment_init ''e'' [''C'', ''B''] [],
                \<lparr>os_environ = Map.empty, modsys = [''B'']\<rparr>))),
          \<lparr>os_environ = Map.empty, modsys = [''A'']\<rparr>))))) ''B''"
  by (simp add: simple_backend_contract) (simp add: run_defs)

end
